theory Spec2Isabelle
  imports Main "HOL-Library.Word"
begin

section \<open>JavaScript values\<close>

text \<open>
  The values that cross the provider's interface.
  \<^item> \<open>JNum w\<close> is a Number holding the integer \<open>sint w\<close>, between \<open>-2^53\<close> and
    \<open>2^53 - 1\<close>: the integers a Number holds exactly and \<open>String\<close> prints digit by
    digit. Numbers with a fraction or of a larger magnitude, \<open>NaN\<close>, the infinities,
    symbols and big integers are not part of the model.
  \<^item> \<open>JFun src c\<close> is a function or class: its source text, which is what \<open>String\<close>
    prints for it, and what a call of it as a method without arguments does
    (\<open>Returns v\<close> or \<open>Throws e\<close>), taken to have no effect on the provider.
  \<^item> \<open>JObj kvs\<close> is an object that inherits from \<open>Object.prototype\<close>, with its
    string-keyed properties (its own and those of its classes) in insertion order;
    \<open>JBare kvs\<close> is an object without a prototype, as \<open>Object.create(null)\<close> makes.
    Objects with symbol-keyed properties (\<open>Symbol.toPrimitive\<close>,
    \<open>Symbol.toStringTag\<close>) are not part of the model.
  \<^item> \<open>JArr xs\<close> is an array with the methods of \<open>Array.prototype\<close>.
\<close>

datatype 'a js_exception = TypeError | UserError 'a

datatype 'a call = Returns 'a | Throws "'a js_exception"

datatype jsval =
    JUndefined
  | JNull
  | JBool bool
  | JNum "54 word"
  | JStr string
  | JArr "jsval list"
  | JObj "(string \<times> jsval) list"
  | JBare "(string \<times> jsval) list"
  | JFun string "jsval call"

fun digits :: "nat \<Rightarrow> string" where
  "digits n = (if n < 10 then [char_of (48 + n)]
               else digits (n div 10) @ [char_of (48 + n mod 10)])"

definition show_int :: "int \<Rightarrow> string" where
  "show_int i = (if i < 0 then CHR ''-'' # digits (nat (- i)) else digits (nat i))"

fun join_comma :: "string list \<Rightarrow> string" where
  "join_comma [] = []"
| "join_comma [s] = s"
| "join_comma (s # t # ss) = s @ CHR '','' # join_comma (t # ss)"

fun is_primitive :: "jsval \<Rightarrow> bool" where
  "is_primitive (JArr xs) = False"
| "is_primitive (JObj kvs) = False"
| "is_primitive (JBare kvs) = False"
| "is_primitive (JFun src c) = False"
| "is_primitive v = True"

text \<open>\<open>ToString\<close> of a primitive value.\<close>

fun ToString_primitive :: "jsval \<Rightarrow> string" where
  "ToString_primitive JUndefined = ''undefined''"
| "ToString_primitive JNull = ''null''"
| "ToString_primitive (JBool b) = (if b then ''true'' else ''false'')"
| "ToString_primitive (JNum w) = show_int (sint w)"
| "ToString_primitive (JStr s) = s"
| "ToString_primitive v = []"

text \<open>
  The conversion of an object to a primitive with hint string. The property
  \<open>toString\<close> is read; when it is callable it is called, and a primitive result is
  the answer; otherwise the same is done with \<open>valueOf\<close>; when neither gives a
  primitive, a \<open>TypeError\<close> is thrown. An exception thrown by a method propagates.
  \<open>method_of\<close> reads a property as a method: a property that is missing or not a
  function is not callable.
\<close>

fun method_of :: "jsval option \<Rightarrow> jsval call option" where
  "method_of (Some (JFun src c)) = Some c"
| "method_of p = None"

definition call_valueOf :: "jsval call option \<Rightarrow> jsval js_exception + jsval" where
  "call_valueOf m =
     (case m of
        Some (Throws e) \<Rightarrow> Inl e
      | Some (Returns r) \<Rightarrow> if is_primitive r then Inr r else Inl TypeError
      | None \<Rightarrow> Inl TypeError)"

definition OrdinaryToPrimitive ::
  "jsval call option \<Rightarrow> jsval call option \<Rightarrow> jsval js_exception + jsval" where
  "OrdinaryToPrimitive toStr valOf =
     (case toStr of
        Some (Throws e) \<Rightarrow> Inl e
      | Some (Returns r) \<Rightarrow> if is_primitive r then Inr r else call_valueOf valOf
      | None \<Rightarrow> call_valueOf valOf)"

text \<open>
  A property of an object with a prototype: where the object and its classes do not
  define it, the method of \<open>Object.prototype\<close> is found, given here by what it does.
\<close>

definition inherited :: "jsval call \<Rightarrow> jsval option \<Rightarrow> jsval call option" where
  "inherited dflt p = (case p of None \<Rightarrow> Some dflt | Some v \<Rightarrow> method_of (Some v))"

fun join_results :: "('e + string) list \<Rightarrow> 'e + string list" where
  "join_results [] = Inr []"
| "join_results (Inl e # rs) = Inl e"
| "join_results (Inr s # rs) =
     (case join_results rs of Inl e \<Rightarrow> Inl e | Inr ss \<Rightarrow> Inr (s # ss))"

text \<open>
  \<open>String(v)\<close>, as \<open>setPrefix\<close> applies it: a string, or the exception thrown.
  \<^item> An array is converted by \<open>Array.prototype.toString\<close>, that is \<open>join\<close>: its
    elements converted in order and joined by commas, \<open>undefined\<close> and \<open>null\<close>
    elements as nothing.
  \<^item> An object is converted to a primitive and that printed. \<open>Object.prototype\<close>
    gives the \<open>toString\<close> that returns \<open>[object Object]\<close> and the \<open>valueOf\<close>
    that returns the object itself.
  \<^item> A function is printed by \<open>Function.prototype.toString\<close>, as its source text.
\<close>

fun String_js :: "jsval \<Rightarrow> jsval js_exception + string" where
  "String_js (JArr xs) =
     (case join_results
             (map (\<lambda>x. if x = JUndefined \<or> x = JNull then Inr [] else String_js x) xs) of
        Inl e \<Rightarrow> Inl e
      | Inr ss \<Rightarrow> Inr (join_comma ss))"
| "String_js (JObj kvs) =
     (case OrdinaryToPrimitive
             (inherited (Returns (JStr ''[object Object]'')) (map_of kvs ''toString''))
             (inherited (Returns (JObj kvs)) (map_of kvs ''valueOf'')) of
        Inl e \<Rightarrow> Inl e
      | Inr p \<Rightarrow> Inr (ToString_primitive p))"
| "String_js (JBare kvs) =
     (case OrdinaryToPrimitive
             (method_of (map_of kvs ''toString'')) (method_of (map_of kvs ''valueOf'')) of
        Inl e \<Rightarrow> Inl e
      | Inr p \<Rightarrow> Inr (ToString_primitive p))"
| "String_js (JFun src c) = Inr src"
| "String_js v = Inr (ToString_primitive v)"


section \<open>Constants and helpers imported by the provider\<close>

text \<open>
  \<open>Formation.js\<close> imports \<open>DEFAULT_PREFIX\<close> and \<open>FORM_COMPONENT_NAME\<close> from
  \<open>etc/constants\<close> and \<open>COMPONENT_CONFIGURATION\<close> and \<open>FORM_CONTROLLER\<close> from
  \<open>components/FormationControl\<close>. Their values are not fixed here: every operation
  that reads one takes the record of constants as an argument.
\<close>

record constants =
  DEFAULT_PREFIX :: string
  FORM_COMPONENT_NAME :: string
  COMPONENT_CONFIGURATION :: string
  FORM_CONTROLLER :: string

definition upper_char :: "char \<Rightarrow> char" where
  "upper_char c =
     (let n = (of_char c :: nat) in if 97 \<le> n \<and> n \<le> 122 then char_of (n - 32) else c)"

definition lower_char :: "char \<Rightarrow> char" where
  "lower_char c =
     (let n = (of_char c :: nat) in if 65 \<le> n \<and> n \<le> 90 then char_of (n + 32) else c)"

text \<open>
  Modelled from the spec: \<open>capitalize\<close> of \<open>etc/utils\<close>, whose source is missing.
  The spec's rule: first character uppercased, remainder unchanged (ASCII simple case).
\<close>

fun capitalize :: "string \<Rightarrow> string" where
  "capitalize [] = []"
| "capitalize (c # cs) = upper_char c # cs"

text \<open>
  Modelled from the spec: \<open>lowercase\<close> of \<open>etc/utils\<close>, whose source is missing.
  The spec's words: \<open>registerComponent\<close> lowercases \<open>name\<close> and forwards the
  lowercase name.
\<close>

definition lowercase :: "string \<Rightarrow> string" where
  "lowercase s = map lower_char s"


section \<open>The provider's state\<close>

text \<open>
  The four closure variables of the provider, the arrays of the JavaScript heap (an
  array is its address, an index into \<open>heap\<close>), and the calls made on
  \<open>$compileProvider\<close> so far.
\<close>

datatype host_call = Component string jsval | Directive string jsval

datatype host_error = HostError string

text \<open>
  The host compiler is opaque: given the calls already made on it, it accepts the next
  call (\<open>None\<close>) or throws (\<open>Some e\<close>).
\<close>

type_synonym compileProvider = "host_call list \<Rightarrow> host_call \<Rightarrow> host_error option"

record state =
  prefix :: string
  showErrorsOnStr :: jsval
  counter :: int
  registeredComponents :: nat
  heap :: "string list list"
  compiled :: "host_call list"

definition init :: state where
  "init = \<lparr> prefix = [], showErrorsOnStr = JUndefined, counter = - 1,
            registeredComponents = 0, heap = [[]], compiled = [] \<rparr>"


section \<open>Provider operations\<close>

text \<open>
  \<open>prefix = String(newPrefix)\<close>: when \<open>String\<close> throws, the assignment is not
  made and the exception leaves the function.
\<close>

definition setPrefix :: "jsval \<Rightarrow> state \<Rightarrow> (jsval js_exception + unit) \<times> state" where
  "setPrefix newPrefix st =
     (case String_js newPrefix of
        Inl e \<Rightarrow> (Inl e, st)
      | Inr s \<Rightarrow> (Inr (), st\<lparr>prefix := s\<rparr>))"

definition showErrorsOn :: "jsval \<Rightarrow> state \<Rightarrow> state" where
  "showErrorsOn flags st = st\<lparr>showErrorsOnStr := flags\<rparr>"

text \<open>
  \<open>R.clone(registeredComponents)\<close>: a new array with the same elements is allocated,
  and its address returned.
\<close>

definition getRegisteredComponents :: "state \<Rightarrow> nat \<times> state" where
  "getRegisteredComponents st =
     (length (heap st), st\<lparr>heap := heap st @ [heap st ! registeredComponents st]\<rparr>)"


section \<open>Service operations\<close>

text \<open>
  \<open>++counter\<close> on a Number holding an integer between \<open>-1\<close> and \<open>2^53\<close>: the
  addition is exact below \<open>2^53\<close>; at \<open>2^53\<close> the sum \<open>2^53 + 1\<close> is not a
  double and rounds (to even) back to \<open>2^53\<close>.
\<close>

definition js_incr :: "int \<Rightarrow> int" where
  "js_incr c = (if c < 2 ^ 53 then c + 1 else c)"

definition getNextId :: "state \<Rightarrow> int \<times> state" where
  "getNextId st = (let c = js_incr (counter st) in (c, st\<lparr>counter := c\<rparr>))"

definition getShowErrorsOnStr :: "state \<Rightarrow> jsval" where
  "getShowErrorsOnStr st = showErrorsOnStr st"

text \<open>\<open>prefix || DEFAULT_PREFIX\<close>: a string is falsy exactly when it is empty.\<close>

definition getPrefixedName :: "constants \<Rightarrow> string \<Rightarrow> state \<Rightarrow> string" where
  "getPrefixedName K name st =
     (if prefix st \<noteq> [] then prefix st else DEFAULT_PREFIX K) @ capitalize name"

text \<open>
  \<open>registeredComponents.push(name)\<close> writes into the provider's own array.
\<close>

definition push_name :: "string \<Rightarrow> state \<Rightarrow> state" where
  "push_name name st =
     st\<lparr>heap := (heap st)[registeredComponents st :=
                     heap st ! registeredComponents st @ [name]]\<rparr>"

text \<open>
  The host call comes first; when it throws, the exception leaves the function and the
  statement after it is not run.
\<close>

definition registerComponent ::
  "compileProvider \<Rightarrow> string \<Rightarrow> jsval \<Rightarrow> state \<Rightarrow> (host_error + unit) \<times> state" where
  "registerComponent host name definition st =
     (let call = Component (lowercase name) definition;
          st1 = st\<lparr>compiled := compiled st @ [call]\<rparr>
      in case host (compiled st) call of
           Some e \<Rightarrow> (Inl e, st1)
         | None \<Rightarrow> (Inr (), push_name name st1))"

definition registerDirective ::
  "compileProvider \<Rightarrow> string \<Rightarrow> jsval \<Rightarrow> state \<Rightarrow> (host_error + unit) \<times> state" where
  "registerDirective host name directiveFn st =
     (let call = Directive (lowercase name) directiveFn;
          st1 = st\<lparr>compiled := compiled st @ [call]\<rparr>
      in case host (compiled st) call of
           Some e \<Rightarrow> (Inl e, st1)
         | None \<Rightarrow> (Inr (), push_name name st1))"


section \<open>Objects and the control base definition\<close>

text \<open>
  Writing a property of an object: an existing key keeps its place and takes the new
  value, a new key goes last. An object literal writes its properties in order.
\<close>

fun obj_set :: "string \<Rightarrow> jsval \<Rightarrow> (string \<times> jsval) list \<Rightarrow> (string \<times> jsval) list" where
  "obj_set k v [] = [(k, v)]"
| "obj_set k v ((k', v') # kvs) =
     (if k = k' then (k, v) # kvs else (k', v') # obj_set k v kvs)"

definition obj_literal :: "(string \<times> jsval) list \<Rightarrow> jsval" where
  "obj_literal kvs = JObj (fold (\<lambda>(k, v). obj_set k v) kvs [])"

fun own_keys :: "jsval \<Rightarrow> string list" where
  "own_keys (JObj kvs) = map fst kvs"
| "own_keys (JBare kvs) = map fst kvs"
| "own_keys v = []"

fun get_prop :: "jsval \<Rightarrow> string \<Rightarrow> jsval" where
  "get_prop (JObj kvs) k = (case map_of kvs k of None \<Rightarrow> JUndefined | Some v \<Rightarrow> v)"
| "get_prop (JBare kvs) k = (case map_of kvs k of None \<Rightarrow> JUndefined | Some v \<Rightarrow> v)"
| "get_prop v k = JUndefined"

text \<open>The first argument of \<open>mergeDeep\<close> in \<open>registerControl\<close>.\<close>

definition base_definition :: "constants \<Rightarrow> jsval" where
  "base_definition K = obj_literal
     [(''bindings'', obj_literal
         [(COMPONENT_CONFIGURATION K, JStr ''<config''),
          (''$ngDisabled'', JStr ''<ngDisabled'')]),
      (''require'', obj_literal
         [(FORM_CONTROLLER K, JStr (''^^'' @ FORM_COMPONENT_NAME K))])]"

text \<open>
  Modelled from the spec: \<open>mergeDeep\<close> of \<open>etc/utils\<close>, whose source is missing.
  The spec's words: a deep merge that adds the keys of one side alongside the keys of
  the other, recursively merging overlapping nested objects. Which side wins where the
  two sides hold the same key and the values are not both objects is left open by the
  spec; it is the argument \<open>res\<close>, applied to the left and the right value.
\<close>

fun mergeDeep :: "(jsval \<Rightarrow> jsval \<Rightarrow> jsval) \<Rightarrow> jsval \<Rightarrow> jsval \<Rightarrow> jsval" where
  "mergeDeep res (JObj l) (JObj r) =
     JObj (map (\<lambda>(k, v). (k, case map_of r k of None \<Rightarrow> v | Some w \<Rightarrow> mergeDeep res v w)) l
           @ filter (\<lambda>(k, w). map_of l k = None) r)"
| "mergeDeep res a b = res a b"

definition keep_left :: "jsval \<Rightarrow> jsval \<Rightarrow> jsval" where
  "keep_left a b = a"

definition keep_right :: "jsval \<Rightarrow> jsval \<Rightarrow> jsval" where
  "keep_right a b = b"

definition registerControl ::
  "compileProvider \<Rightarrow> constants \<Rightarrow> (jsval \<Rightarrow> jsval \<Rightarrow> jsval) \<Rightarrow> string \<Rightarrow> jsval \<Rightarrow> state
     \<Rightarrow> (host_error + unit) \<times> state" where
  "registerControl host K res name definition st =
     registerComponent host name (mergeDeep res (base_definition K) definition) st"


section \<open>Sequences of calls\<close>

datatype op =
    OpSetPrefix jsval
  | OpShowErrorsOn jsval
  | OpGetRegisteredComponents
  | OpGetNextId
  | OpGetShowErrorsOnStr
  | OpGetPrefixedName string
  | OpRegisterComponent string jsval
  | OpRegisterDirective string jsval
  | OpRegisterControl string jsval

datatype result =
    Returned
  | NextId int
  | Val jsval
  | Name string
  | Array nat
  | Thrown host_error
  | Raised "jsval js_exception"

fun outcome :: "(host_error + unit) \<times> state \<Rightarrow> result \<times> state" where
  "outcome (Inl e, st) = (Thrown e, st)"
| "outcome (Inr u, st) = (Returned, st)"

fun step ::
  "compileProvider \<Rightarrow> constants \<Rightarrow> (jsval \<Rightarrow> jsval \<Rightarrow> jsval) \<Rightarrow> op \<Rightarrow> state \<Rightarrow> result \<times> state" where
  "step host K res (OpSetPrefix v) st =
     (case setPrefix v st of
        (Inl e, st') \<Rightarrow> (Raised e, st')
      | (Inr u, st') \<Rightarrow> (Returned, st'))"
| "step host K res (OpShowErrorsOn v) st = (Returned, showErrorsOn v st)"
| "step host K res OpGetRegisteredComponents st =
     (case getRegisteredComponents st of (a, st') \<Rightarrow> (Array a, st'))"
| "step host K res OpGetNextId st = (case getNextId st of (i, st') \<Rightarrow> (NextId i, st'))"
| "step host K res OpGetShowErrorsOnStr st = (Val (getShowErrorsOnStr st), st)"
| "step host K res (OpGetPrefixedName n) st = (Name (getPrefixedName K n st), st)"
| "step host K res (OpRegisterComponent n d) st = outcome (registerComponent host n d st)"
| "step host K res (OpRegisterDirective n f) st = outcome (registerDirective host n f st)"
| "step host K res (OpRegisterControl n d) st = outcome (registerControl host K res n d st)"

text \<open>
  A caller runs the calls in order, from a state; a call that throws is caught by the
  caller, who goes on with the next one.
\<close>

fun run ::
  "compileProvider \<Rightarrow> constants \<Rightarrow> (jsval \<Rightarrow> jsval \<Rightarrow> jsval) \<Rightarrow> op list \<Rightarrow> state
     \<Rightarrow> result list \<times> state" where
  "run host K res [] st = ([], st)"
| "run host K res (c # cs) st =
     (case step host K res c st of (r, st') \<Rightarrow>
        (case run host K res cs st' of (rs, st'') \<Rightarrow> (r # rs, st'')))"

fun ids :: "result list \<Rightarrow> int list" where
  "ids [] = []"
| "ids (NextId i # rs) = i # ids rs"
| "ids (r # rs) = ids rs"

text \<open>
  What a caller can do to an array it was handed: replace its contents (any sequence
  of pushes, pops and index writes amounts to that).
\<close>

definition caller_writes :: "nat \<Rightarrow> string list \<Rightarrow> state \<Rightarrow> state" where
  "caller_writes a xs st = st\<lparr>heap := (heap st)[a := xs]\<rparr>"

text \<open>The contents of the provider's own array, and the invariant that it is allocated.\<close>

definition log_of :: "state \<Rightarrow> string list" where
  "log_of st = heap st ! registeredComponents st"

definition allocated :: "state \<Rightarrow> bool" where
  "allocated st = (registeredComponents st < length (heap st))"


section \<open>Auxiliary notions for the properties\<close>

fun is_showErrorsOn :: "op \<Rightarrow> bool" where
  "is_showErrorsOn (OpShowErrorsOn v) = True"
| "is_showErrorsOn c = False"

fun is_setPrefix :: "op \<Rightarrow> bool" where
  "is_setPrefix (OpSetPrefix v) = True"
| "is_setPrefix c = False"

definition is_upper :: "char \<Rightarrow> bool" where
  "is_upper c = (65 \<le> (of_char c :: nat) \<and> (of_char c :: nat) \<le> 90)"

text \<open>An object whose own \<open>toString\<close> returns the empty string.\<close>

definition empty_label :: jsval where
  "empty_label = JObj
     [(''label'', JStr []),
      (''toString'', JFun ''function () { return this.label; }'' (Returns (JStr [])))]"

text \<open>Sample values of the imported constants, and a host that accepts every call.\<close>

definition sample_constants :: constants where
  "sample_constants = \<lparr> DEFAULT_PREFIX = ''fm'', FORM_COMPONENT_NAME = ''fm'',
      COMPONENT_CONFIGURATION = ''$configuration'', FORM_CONTROLLER = ''$formController'' \<rparr>"

definition accept_all :: compileProvider where
  "accept_all calls c = None"

definition reject_all :: compileProvider where
  "reject_all calls c = Some (HostError ''rejected'')"

text \<open>The two reads, and what each must return after reads only.\<close>

fun is_read :: "op \<Rightarrow> bool" where
  "is_read OpGetShowErrorsOnStr = True"
| "is_read OpGetRegisteredComponents = True"
| "is_read c = False"

fun read_returns :: "state \<Rightarrow> state \<Rightarrow> result \<Rightarrow> bool" where
  "read_returns st st' (Val v) = (v = showErrorsOnStr st)"
| "read_returns st st' (Array a) = (a < length (heap st') \<and> heap st' ! a = log_of st)"
| "read_returns st st' r = False"

text \<open>The registry's state: its variables and the contents of its array.\<close>

definition registry_of :: "state \<Rightarrow> string \<times> jsval \<times> int \<times> string list \<times> host_call list" where
  "registry_of st = (prefix st, showErrorsOnStr st, counter st, log_of st, compiled st)"

fun is_getNextId :: "op \<Rightarrow> bool" where
  "is_getNextId OpGetNextId = True"
| "is_getNextId c = False"

text \<open>
  \<open>contains r d\<close>: every property of \<open>d\<close> is a property of \<open>r\<close>, with the same
  value, or, where both values are objects, with a value that contains it in turn.
\<close>

fun contains :: "jsval \<Rightarrow> jsval \<Rightarrow> bool" where
  "contains (JObj r) (JObj d) =
     list_all (\<lambda>(k, v). case map_of r k of None \<Rightarrow> False | Some w \<Rightarrow> contains w v) d"
| "contains a b = (a = b)"

text \<open>An object value has each of its keys once.\<close>

fun wf_val :: "jsval \<Rightarrow> bool" where
  "wf_val (JObj kvs) = (distinct (map fst kvs) \<and> list_all (\<lambda>(k, v). wf_val v) kvs)"
| "wf_val (JBare kvs) = (distinct (map fst kvs) \<and> list_all (\<lambda>(k, v). wf_val v) kvs)"
| "wf_val (JArr xs) = list_all wf_val xs"
| "wf_val v = True"

fun is_object :: "jsval \<Rightarrow> bool" where
  "is_object (JObj kvs) = True"
| "is_object v = False"

text \<open>
  The caller's definition is an object; its \<open>bindings\<close> and its \<open>require\<close>, where
  it has them, are objects that do not define a key of the base definition.
\<close>

definition leaves_base_keys :: "constants \<Rightarrow> jsval \<Rightarrow> bool" where
  "leaves_base_keys K d =
     (is_object d
      \<and> (''bindings'' \<in> set (own_keys d) \<longrightarrow>
           is_object (get_prop d ''bindings'')
           \<and> COMPONENT_CONFIGURATION K \<notin> set (own_keys (get_prop d ''bindings''))
           \<and> ''$ngDisabled'' \<notin> set (own_keys (get_prop d ''bindings'')))
      \<and> (''require'' \<in> set (own_keys d) \<longrightarrow>
           is_object (get_prop d ''require'')
           \<and> FORM_CONTROLLER K \<notin> set (own_keys (get_prop d ''require''))))"

text \<open>Two caller definitions: one beside the base keys, one that redefines a base binding.\<close>

definition date_picker :: jsval where
  "date_picker = JObj
     [(''controllerAs'', JStr ''DatePicker''),
      (''controller'', JFun ''class DatePicker extends FormationControl {}'' (Throws TypeError)),
      (''bindings'', JObj [(''min'', JStr ''<'')])]"

definition overriding :: jsval where
  "overriding = JObj [(''bindings'', JObj [(''$ngDisabled'', JStr ''@'')])]"


section \<open>Which operation touches which variable\<close>

lemma push_name_fields [simp]:
  "prefix (push_name n st) = prefix st"
  "showErrorsOnStr (push_name n st) = showErrorsOnStr st"
  "counter (push_name n st) = counter st"
  "registeredComponents (push_name n st) = registeredComponents st"
  "compiled (push_name n st) = compiled st"
  by (simp_all add: push_name_def)

lemma registerComponent_fields [simp]:
  "prefix (snd (registerComponent host n d st)) = prefix st"
  "showErrorsOnStr (snd (registerComponent host n d st)) = showErrorsOnStr st"
  "counter (snd (registerComponent host n d st)) = counter st"
  "registeredComponents (snd (registerComponent host n d st)) = registeredComponents st"
  by (simp_all add: registerComponent_def Let_def split: option.splits)

lemma registerDirective_fields [simp]:
  "prefix (snd (registerDirective host n d st)) = prefix st"
  "showErrorsOnStr (snd (registerDirective host n d st)) = showErrorsOnStr st"
  "counter (snd (registerDirective host n d st)) = counter st"
  "registeredComponents (snd (registerDirective host n d st)) = registeredComponents st"
  by (simp_all add: registerDirective_def Let_def split: option.splits)

lemma snd_outcome [simp]: "snd (outcome x) = snd x"
  by (cases x rule: outcome.cases) simp_all

lemma setPrefix_fields [simp]:
  "showErrorsOnStr (snd (setPrefix v st)) = showErrorsOnStr st"
  "counter (snd (setPrefix v st)) = counter st"
  "registeredComponents (snd (setPrefix v st)) = registeredComponents st"
  "heap (snd (setPrefix v st)) = heap st"
  "compiled (snd (setPrefix v st)) = compiled st"
  by (simp_all add: setPrefix_def split: sum.splits)

lemma step_setPrefix [simp]:
  "snd (step host K res (OpSetPrefix v) st) = snd (setPrefix v st)"
  by (simp split: prod.splits sum.splits)

lemma ids_step_setPrefix [simp]:
  "ids (fst (step host K res (OpSetPrefix v) st) # rs) = ids rs"
  by (simp split: prod.splits sum.splits)

lemma step_showErrorsOnStr:
  "\<not> is_showErrorsOn c \<Longrightarrow> showErrorsOnStr (snd (step host K res c st)) = showErrorsOnStr st"
  by (cases c)
     (simp_all add: getRegisteredComponents_def getNextId_def Let_def registerControl_def
        del: step.simps(1))

lemma step_prefix:
  "\<not> is_setPrefix c \<Longrightarrow> prefix (snd (step host K res c st)) = prefix st"
  by (cases c)
     (simp_all add: showErrorsOn_def getRegisteredComponents_def getNextId_def Let_def
        registerControl_def)

lemma snd_run_Cons:
  "snd (run host K res (c # cs) st) = snd (run host K res cs (snd (step host K res c st)))"
  by (simp split: prod.splits)

lemma run_showErrorsOnStr:
  "list_all (\<lambda>c. \<not> is_showErrorsOn c) cs \<Longrightarrow>
     showErrorsOnStr (snd (run host K res cs st)) = showErrorsOnStr st"
proof (induction cs arbitrary: st)
  case Nil
  show ?case by simp
next
  case (Cons c cs)
  then show ?case by (simp only: snd_run_Cons) (simp add: step_showErrorsOnStr)
qed

lemma run_prefix:
  "list_all (\<lambda>c. \<not> is_setPrefix c) cs \<Longrightarrow> prefix (snd (run host K res cs st)) = prefix st"
proof (induction cs arbitrary: st)
  case Nil
  show ?case by simp
next
  case (Cons c cs)
  then show ?case by (simp only: snd_run_Cons) (simp add: step_prefix)
qed


section \<open>The error-display setting\<close>

text \<open>
  C7. Whatever other calls are made, as long as \<open>showErrorsOn\<close> has not been called
  the getter returns \<open>undefined\<close>; and after \<open>showErrorsOn(s)\<close>, whatever was set
  before it and whatever other calls follow it, the getter returns the string \<open>s\<close>
  as it was passed.
\<close>

theorem showErrorsOn_round_trip:
  assumes "list_all (\<lambda>c. \<not> is_showErrorsOn c) cs"
  shows "getShowErrorsOnStr (snd (run host K res cs init)) = JUndefined
       \<and> getShowErrorsOnStr (snd (run host K res cs (showErrorsOn (JStr s) st))) = JStr s"
  using assms
  by (simp add: getShowErrorsOnStr_def run_showErrorsOnStr init_def showErrorsOn_def)

theorem showErrorsOn_round_trip_witness:
  "list_all (\<lambda>c. \<not> is_showErrorsOn c) [OpGetNextId, OpSetPrefix (JStr ''foo'')]
   \<and> getShowErrorsOnStr
        (snd (run accept_all sample_constants keep_right
                [OpGetNextId, OpSetPrefix (JStr ''foo'')] init)) = JUndefined
   \<and> getShowErrorsOnStr
        (snd (run accept_all sample_constants keep_right
                [OpGetNextId, OpSetPrefix (JStr ''foo'')]
                (showErrorsOn (JStr '' touched, submitted '')
                   (showErrorsOn (JStr ''dirty'') init)))) = JStr '' touched, submitted ''"
  using showErrorsOn_round_trip
    [of "[OpGetNextId, OpSetPrefix (JStr ''foo'')]" accept_all sample_constants keep_right
        "'' touched, submitted ''" "showErrorsOn (JStr ''dirty'') init"]
  by simp

text \<open>
  C10. The setter stores its argument as it is, whatever its type: the call
  \<open>showErrorsOn(v)\<close> followed by the getter returns \<open>v\<close> itself.
\<close>

theorem showErrorsOn_no_coercion:
  "run host K res [OpShowErrorsOn v, OpGetShowErrorsOnStr] st
     = ([Returned, Val v], showErrorsOn v st)
   \<and> getShowErrorsOnStr (showErrorsOn v st) = v"
  by (simp add: getShowErrorsOnStr_def showErrorsOn_def)


section \<open>Prefixed names\<close>

lemma upper_char_i: "upper_char CHR ''i'' = CHR ''I''"
  by code_simp

lemma upper_char_x: "upper_char CHR ''x'' = CHR ''X''"
  by code_simp

lemma String_js_42: "String_js (JNum 42) = Inr ''42''"
  by code_simp

lemma String_js_minus_7: "String_js (JNum (- 7)) = Inr ''-7''"
  by code_simp

lemma String_js_nested_array:
  "String_js (JArr [JStr ''a'', JNull, JUndefined, JNum 1, JArr [JStr ''b'', JStr ''c'']])
     = Inr ''a,,,1,b,c''"
  by code_simp

lemma String_js_inherited_toString:
  "map_of kvs ''toString'' = None \<Longrightarrow> String_js (JObj kvs) = Inr ''[object Object]''"
  by (simp add: OrdinaryToPrimitive_def inherited_def)

lemma String_js_own_toString:
  "map_of kvs ''toString'' = Some (JFun src (Returns (JStr t))) \<Longrightarrow>
     String_js (JObj kvs) = Inr t"
  by (simp add: OrdinaryToPrimitive_def inherited_def)

lemma String_js_empty_label: "String_js empty_label = Inr []"
  by (simp add: empty_label_def OrdinaryToPrimitive_def inherited_def)

lemma String_js_bare: "String_js (JBare []) = Inl TypeError"
  by (simp add: OrdinaryToPrimitive_def call_valueOf_def)

lemma setPrefix_returns:
  "String_js v = Inr s \<Longrightarrow> setPrefix v st = (Inr (), st\<lparr>prefix := s\<rparr>)"
  by (simp add: setPrefix_def)

lemma setPrefix_throws: "String_js v = Inl e \<Longrightarrow> setPrefix v st = (Inl e, st)"
  by (simp add: setPrefix_def)

lemma getPrefixedName_input:
  "getPrefixedName K ''input'' st
     = (if prefix st \<noteq> [] then prefix st else DEFAULT_PREFIX K) @ ''Input''"
  by (simp add: getPrefixedName_def upper_char_i)

text \<open>
  C2, as stated, in its last sentence: \<open>setPrefix\<close> turns any input into a string and
  stores it. It does not for an input that \<open>String\<close> cannot convert: on an object
  without a prototype, \<open>Object.create(null)\<close>, \<open>String\<close> throws a \<open>TypeError\<close>,
  \<open>setPrefix\<close> throws it on, and the prefix set before stays.
\<close>

theorem prefix_coercion_counterexample:
  "fst (setPrefix (JBare []) (snd (setPrefix (JStr ''foo'') init))) = Inl TypeError
   \<and> prefix (snd (setPrefix (JBare []) (snd (setPrefix (JStr ''foo'') init)))) = ''foo''
   \<and> getPrefixedName sample_constants ''input''
        (snd (setPrefix (JBare []) (snd (setPrefix (JStr ''foo'') init)))) = ''fooInput''"
proof -
  have st: "snd (setPrefix (JStr ''foo'') init) = init\<lparr>prefix := ''foo''\<rparr>"
    by (simp add: setPrefix_def)
  have t: "setPrefix (JBare []) st' = (Inl TypeError, st')" for st'
    by (rule setPrefix_throws [OF String_js_bare])
  show ?thesis by (simp add: t st getPrefixedName_input)
qed

text \<open>
  C2, amended. As long as \<open>setPrefix\<close> has not been called, and also after a
  \<open>setPrefix(v)\<close> whose argument \<open>String\<close> turns into the empty string, the prefixed
  name of \<open>input\<close> is \<open>DEFAULT_PREFIX\<close> followed by \<open>Input\<close>; after
  \<open>setPrefix("foo")\<close> it is \<open>fooInput\<close>; calls other than \<open>setPrefix\<close> in between
  change nothing. \<open>setPrefix(v)\<close> stores \<open>String(v)\<close> when \<open>String\<close> returns; when
  \<open>String\<close> throws, \<open>setPrefix\<close> throws the same exception and the state is what
  it was. What is stored: a string as it is; \<open>undefined\<close>, \<open>null\<close>, \<open>true\<close> and
  \<open>false\<close> by name; a number by its digits; an array by its elements joined with
  commas; a function by its source text; an object by what its \<open>toString\<close> returns,
  which is \<open>[object Object]\<close> when it defines none.
\<close>

theorem prefix_fallback:
  assumes "list_all (\<lambda>c. \<not> is_setPrefix c) cs"
  shows "getPrefixedName K ''input'' (snd (run host K res cs init))
           = DEFAULT_PREFIX K @ ''Input''
       \<and> (String_js v = Inr [] \<longrightarrow>
            getPrefixedName K ''input'' (snd (run host K res cs (snd (setPrefix v st))))
              = DEFAULT_PREFIX K @ ''Input'')
       \<and> getPrefixedName K ''input''
            (snd (run host K res cs (snd (setPrefix (JStr ''foo'') st)))) = ''fooInput''
       \<and> (String_js v = Inr s \<longrightarrow> setPrefix v st = (Inr (), st\<lparr>prefix := s\<rparr>))
       \<and> (String_js v = Inl e \<longrightarrow> setPrefix v st = (Inl e, st))
       \<and> prefix (snd (setPrefix (JStr t) st)) = t
       \<and> prefix (snd (setPrefix JUndefined st)) = ''undefined''
       \<and> prefix (snd (setPrefix JNull st)) = ''null''
       \<and> prefix (snd (setPrefix (JBool True) st)) = ''true''
       \<and> prefix (snd (setPrefix (JBool False) st)) = ''false''
       \<and> prefix (snd (setPrefix (JNum 42) st)) = ''42''
       \<and> prefix (snd (setPrefix (JNum (- 7)) st)) = ''-7''
       \<and> prefix (snd (setPrefix
            (JArr [JStr ''a'', JNull, JUndefined, JNum 1, JArr [JStr ''b'', JStr ''c'']]) st))
           = ''a,,,1,b,c''
       \<and> prefix (snd (setPrefix (JFun src c) st)) = src
       \<and> (map_of kvs ''toString'' = None \<longrightarrow>
            prefix (snd (setPrefix (JObj kvs) st)) = ''[object Object]'')
       \<and> (map_of kvs ''toString'' = Some (JFun src (Returns (JStr t))) \<longrightarrow>
            prefix (snd (setPrefix (JObj kvs) st)) = t)"
proof -
  have p: "prefix (snd (run host K res cs st')) = prefix st'" for st'
    using assms by (rule run_prefix)
  have 1: "getPrefixedName K ''input'' (snd (run host K res cs init))
             = DEFAULT_PREFIX K @ ''Input''"
    by (simp add: getPrefixedName_input p init_def)
  have 2: "String_js v = Inr [] \<longrightarrow>
             getPrefixedName K ''input'' (snd (run host K res cs (snd (setPrefix v st))))
               = DEFAULT_PREFIX K @ ''Input''"
    by (simp add: getPrefixedName_input p setPrefix_def)
  have 3: "getPrefixedName K ''input''
             (snd (run host K res cs (snd (setPrefix (JStr ''foo'') st)))) = ''fooInput''"
    by (simp add: getPrefixedName_input p setPrefix_def)
  have 4: "String_js v = Inr s \<longrightarrow> setPrefix v st = (Inr (), st\<lparr>prefix := s\<rparr>)"
    and 5: "String_js v = Inl e \<longrightarrow> setPrefix v st = (Inl e, st)"
    by (simp_all add: setPrefix_def)
  have 6: "prefix (snd (setPrefix (JStr t) st)) = t"
    and 7: "prefix (snd (setPrefix JUndefined st)) = ''undefined''"
    and 8: "prefix (snd (setPrefix JNull st)) = ''null''"
    and 9: "prefix (snd (setPrefix (JBool True) st)) = ''true''"
    and 10: "prefix (snd (setPrefix (JBool False) st)) = ''false''"
    and 14: "prefix (snd (setPrefix (JFun src c) st)) = src"
    by (simp_all add: setPrefix_def)
  have 11: "prefix (snd (setPrefix (JNum 42) st)) = ''42''"
    by (simp add: setPrefix_returns [OF String_js_42])
  have 12: "prefix (snd (setPrefix (JNum (- 7)) st)) = ''-7''"
    by (simp add: setPrefix_returns [OF String_js_minus_7])
  have 13: "prefix (snd (setPrefix
              (JArr [JStr ''a'', JNull, JUndefined, JNum 1, JArr [JStr ''b'', JStr ''c'']]) st))
             = ''a,,,1,b,c''"
    by (simp add: setPrefix_returns [OF String_js_nested_array])
  have 15: "map_of kvs ''toString'' = None \<longrightarrow>
              prefix (snd (setPrefix (JObj kvs) st)) = ''[object Object]''"
    by (simp add: setPrefix_returns [OF String_js_inherited_toString])
  have 16: "map_of kvs ''toString'' = Some (JFun src (Returns (JStr t))) \<longrightarrow>
              prefix (snd (setPrefix (JObj kvs) st)) = t"
    by (simp add: setPrefix_returns [OF String_js_own_toString])
  from 1 2 3 4 5 6 7 8 9 10 11 12 13 14 15 16 show ?thesis by blast
qed

theorem prefix_fallback_witness:
  "list_all (\<lambda>c. \<not> is_setPrefix c) [OpShowErrorsOn (JStr ''touched''), OpGetNextId]
   \<and> String_js empty_label = Inr []
   \<and> getPrefixedName sample_constants ''input''
        (snd (run accept_all sample_constants keep_right
                [OpShowErrorsOn (JStr ''touched''), OpGetNextId] init)) = ''fmInput''
   \<and> getPrefixedName sample_constants ''input''
        (snd (run accept_all sample_constants keep_right
                [OpShowErrorsOn (JStr ''touched''), OpGetNextId]
                (snd (setPrefix empty_label (snd (setPrefix (JStr ''bar'') init))))))
       = ''fmInput''
   \<and> getPrefixedName sample_constants ''input''
        (snd (run accept_all sample_constants keep_right
                [OpShowErrorsOn (JStr ''touched''), OpGetNextId]
                (snd (setPrefix (JStr ''foo'') (snd (setPrefix (JStr ''bar'') init))))))
       = ''fooInput''
   \<and> setPrefix empty_label (snd (setPrefix (JStr ''bar'') init))
       = (Inr (), (snd (setPrefix (JStr ''bar'') init))\<lparr>prefix := []\<rparr>)
   \<and> String_js (JBare [(''label'', JStr ''x'')]) = Inl TypeError
   \<and> setPrefix (JBare [(''label'', JStr ''x'')]) (snd (setPrefix (JStr ''bar'') init))
       = (Inl TypeError, snd (setPrefix (JStr ''bar'') init))
   \<and> map_of [(''label'', JStr ''x'')] ''toString'' = None
   \<and> prefix (snd (setPrefix (JObj [(''label'', JStr ''x'')]) init)) = ''[object Object]''"
proof -
  let ?cs = "[OpShowErrorsOn (JStr ''touched''), OpGetNextId]"
  let ?st = "snd (setPrefix (JStr ''bar'') init)"
  let ?bare = "JBare [(''label'', JStr ''x'')]"
  have h: "list_all (\<lambda>c. \<not> is_setPrefix c) ?cs" by simp
  have k: "DEFAULT_PREFIX sample_constants @ ''Input'' = ''fmInput''"
    by (simp add: sample_constants_def)
  have b: "String_js ?bare = Inl TypeError"
    by (simp add: OrdinaryToPrimitive_def call_valueOf_def)
  have m: "map_of [(''label'', JStr ''x'')] ''toString'' = None" by simp
  note A = prefix_fallback
    [OF h, where K = sample_constants and host = accept_all and res = keep_right
       and v = empty_label and st = ?st and s = "[]" and e = TypeError and t = "[]"
       and src = "[]" and c = "Returns JNull" and kvs = "[]", unfolded k]
  note B = prefix_fallback
    [OF h, where K = sample_constants and host = accept_all and res = keep_right
       and v = ?bare and st = ?st and s = "[]" and e = TypeError and t = "[]"
       and src = "[]" and c = "Returns JNull" and kvs = "[]"]
  note C = prefix_fallback
    [OF h, where K = sample_constants and host = accept_all and res = keep_right
       and v = ?bare and st = init and s = "[]" and e = TypeError and t = "[]"
       and src = "[]" and c = "Returns JNull" and kvs = "[(''label'', JStr ''x'')]"]
  from A have w1: "getPrefixedName sample_constants ''input''
      (snd (run accept_all sample_constants keep_right ?cs init)) = ''fmInput''"
    by (rule conjunct1)
  from A String_js_empty_label have w2: "getPrefixedName sample_constants ''input''
      (snd (run accept_all sample_constants keep_right ?cs (snd (setPrefix empty_label ?st))))
        = ''fmInput''"
    by blast
  from A have w3: "getPrefixedName sample_constants ''input''
      (snd (run accept_all sample_constants keep_right ?cs
              (snd (setPrefix (JStr ''foo'') ?st)))) = ''fooInput''"
    by blast
  from A String_js_empty_label
  have w4: "setPrefix empty_label ?st = (Inr (), ?st\<lparr>prefix := []\<rparr>)"
    by blast
  from B b have w5: "setPrefix ?bare ?st = (Inl TypeError, ?st)"
    by blast
  from C m have w6: "prefix (snd (setPrefix (JObj [(''label'', JStr ''x'')]) init))
      = ''[object Object]''"
    by blast
  from h String_js_empty_label w1 w2 w3 w4 b w5 m w6 show ?thesis
    by (intro conjI)
qed

text \<open>
  C8. The prefixed name is the prefix, or the default when the prefix is empty,
  followed by the name with its first character uppercased and the rest unchanged; the
  call reads the prefix only and changes no state; the one-character name \<open>x\<close>
  becomes \<open>X\<close>.
\<close>

theorem getPrefixedName_capitalizes:
  "getPrefixedName K name st
     = (if prefix st = [] then DEFAULT_PREFIX K else prefix st) @ capitalize name
   \<and> capitalize name = map upper_char (take 1 name) @ drop 1 name
   \<and> step host K res (OpGetPrefixedName name) st = (Name (getPrefixedName K name st), st)
   \<and> getPrefixedName K ''x'' st
       = (if prefix st = [] then DEFAULT_PREFIX K else prefix st) @ ''X''"
  by (cases name) (simp_all add: getPrefixedName_def upper_char_x)


section \<open>Registration\<close>

lemma log_of_push_name:
  "allocated st \<Longrightarrow> log_of (push_name n st) = log_of st @ [n]"
  by (simp add: log_of_def push_name_def allocated_def)

lemma allocated_push_name: "allocated (push_name n st) = allocated st"
  by (simp add: allocated_def push_name_def)

lemma log_of_compiled_update [simp]: "log_of (st\<lparr>compiled := cs\<rparr>) = log_of st"
  by (simp add: log_of_def)

lemma allocated_compiled_update [simp]: "allocated (st\<lparr>compiled := cs\<rparr>) = allocated st"
  by (simp add: allocated_def)

lemma lowercase_FmInput: "lowercase ''FmInput'' = ''fminput''"
  by code_simp

lemma lowercase_fmInput: "lowercase ''fmInput'' = ''fminput''"
  by code_simp

lemma lowercase_fmFocus: "lowercase ''fmFocus'' = ''fmfocus''"
  by code_simp

lemma lower_char_not_upper: "\<not> is_upper (lower_char c)"
  by (auto simp: lower_char_def is_upper_def Let_def)

lemma upper_lower_char: "upper_char (lower_char c) = upper_char c"
  by (auto simp: lower_char_def upper_char_def Let_def)

text \<open>
  C6, as stated, for every call: the name is appended to the log. It is not when the
  host rejects the call: the host has received the lowercased name, and the log is
  what it was.
\<close>

theorem registerComponent_append_counterexample:
  "compiled (snd (registerComponent reject_all ''FmInput'' (JObj []) init))
     = [Component ''fminput'' (JObj [])]
   \<and> fst (registerComponent reject_all ''FmInput'' (JObj []) init)
       = Inl (HostError ''rejected'')
   \<and> log_of (snd (registerComponent reject_all ''FmInput'' (JObj []) init))
       \<noteq> log_of init @ [''FmInput'']"
  by (simp add: registerComponent_def reject_all_def Let_def lowercase_FmInput)
     (simp add: init_def log_of_def)

text \<open>
  C6, amended. \<open>$registerComponent(name, definition)\<close> calls the host's component
  registry with the definition as given and the name lowercased: a name of the same
  length, without an uppercase letter anywhere in it, that differs from the name passed
  in case only. When that call returns, the name as it was passed is appended to the
  log; when it throws, the exception reaches the caller and the log is what it was.
\<close>

theorem registerComponent_forwards:
  "compiled (snd (registerComponent host name d st))
     = compiled st @ [Component (lowercase name) d]
   \<and> length (lowercase name) = length name
   \<and> list_all (\<lambda>c. \<not> is_upper c) (lowercase name)
   \<and> map upper_char (lowercase name) = map upper_char name
   \<and> (allocated st \<and> host (compiled st) (Component (lowercase name) d) = None \<longrightarrow>
        fst (registerComponent host name d st) = Inr ()
        \<and> log_of (snd (registerComponent host name d st)) = log_of st @ [name])
   \<and> (host (compiled st) (Component (lowercase name) d) = Some e \<longrightarrow>
        fst (registerComponent host name d st) = Inl e
        \<and> log_of (snd (registerComponent host name d st)) = log_of st)"
proof -
  have "list_all (\<lambda>c. \<not> is_upper c) (lowercase name)"
    by (simp add: lowercase_def list_all_iff lower_char_not_upper)
  moreover have "map upper_char (lowercase name) = map upper_char name"
    by (simp add: lowercase_def upper_lower_char)
  ultimately show ?thesis
    by (simp add: registerComponent_def Let_def log_of_push_name lowercase_def
          split: option.splits)
qed

theorem registerComponent_forwards_witness:
  "allocated init
   \<and> accept_all (compiled init) (Component (lowercase ''FmInput'') (JObj [])) = None
   \<and> compiled (snd (registerComponent accept_all ''FmInput'' (JObj []) init))
       = [Component ''fminput'' (JObj [])]
   \<and> fst (registerComponent accept_all ''FmInput'' (JObj []) init) = Inr ()
   \<and> log_of (snd (registerComponent accept_all ''FmInput'' (JObj []) init)) = [''FmInput'']
   \<and> reject_all (compiled init) (Component (lowercase ''FmInput'') (JObj []))
       = Some (HostError ''rejected'')
   \<and> fst (registerComponent reject_all ''FmInput'' (JObj []) init)
       = Inl (HostError ''rejected'')
   \<and> log_of (snd (registerComponent reject_all ''FmInput'' (JObj []) init)) = []"
  using registerComponent_forwards [of accept_all "''FmInput''" "JObj []" init]
    registerComponent_forwards
      [of reject_all "''FmInput''" "JObj []" init "HostError ''rejected''"]
  by (simp add: lowercase_FmInput accept_all_def reject_all_def)
     (simp add: init_def allocated_def log_of_def)

text \<open>
  C4, as stated: when the host call throws, the name is in the log all the same. It is
  not: with a host that rejects the call, the log stays empty.
\<close>

theorem log_append_before_host_counterexample:
  "fst (registerComponent reject_all ''fmInput'' (JObj []) init) = Inl (HostError ''rejected'')
   \<and> ''fmInput'' \<notin> set (log_of (snd (registerComponent reject_all ''fmInput'' (JObj []) init)))
   \<and> fst (registerDirective reject_all ''fmFocus'' (JFun ''f'' (Returns (JObj []))) init)
       = Inl (HostError ''rejected'')
   \<and> ''fmFocus'' \<notin> set (log_of (snd (registerDirective reject_all ''fmFocus'' (JFun ''f'' (Returns (JObj []))) init)))
   \<and> (case getRegisteredComponents
              (snd (registerComponent reject_all ''fmInput'' (JObj []) init)) of
          (a, st) \<Rightarrow> heap st ! a = [])"
  by (simp add: registerComponent_def registerDirective_def reject_all_def Let_def
        log_of_def init_def getRegisteredComponents_def)

text \<open>
  C4, amended. When the host call of \<open>$registerComponent\<close> or
  \<open>$registerDirective\<close> throws, the exception reaches the caller and the log is
  what it was: the name is appended after the host call, and only when that call
  returns.
\<close>

theorem log_append_after_host:
  "(host (compiled st) (Component (lowercase name) d) = Some e \<longrightarrow>
      fst (registerComponent host name d st) = Inl e
      \<and> heap (snd (registerComponent host name d st)) = heap st
      \<and> log_of (snd (registerComponent host name d st)) = log_of st)
   \<and> (host (compiled st) (Directive (lowercase name) d) = Some e \<longrightarrow>
      fst (registerDirective host name d st) = Inl e
      \<and> heap (snd (registerDirective host name d st)) = heap st
      \<and> log_of (snd (registerDirective host name d st)) = log_of st)
   \<and> (allocated st \<and> host (compiled st) (Component (lowercase name) d) = None \<longrightarrow>
      log_of (snd (registerComponent host name d st)) = log_of st @ [name])
   \<and> (allocated st \<and> host (compiled st) (Directive (lowercase name) d) = None \<longrightarrow>
      log_of (snd (registerDirective host name d st)) = log_of st @ [name])"
  by (simp add: registerComponent_def registerDirective_def Let_def log_of_push_name)

theorem log_append_after_host_witness:
  "reject_all (compiled init) (Component (lowercase ''fmInput'') (JObj []))
     = Some (HostError ''rejected'')
   \<and> reject_all (compiled init) (Directive (lowercase ''fmInput'') (JObj []))
     = Some (HostError ''rejected'')
   \<and> fst (registerComponent reject_all ''fmInput'' (JObj []) init) = Inl (HostError ''rejected'')
   \<and> log_of (snd (registerComponent reject_all ''fmInput'' (JObj []) init)) = []
   \<and> fst (registerDirective reject_all ''fmInput'' (JObj []) init) = Inl (HostError ''rejected'')
   \<and> log_of (snd (registerDirective reject_all ''fmInput'' (JObj []) init)) = []
   \<and> allocated init
   \<and> accept_all (compiled init) (Component (lowercase ''fmInput'') (JObj [])) = None
   \<and> accept_all (compiled init) (Directive (lowercase ''fmInput'') (JObj [])) = None
   \<and> log_of (snd (registerComponent accept_all ''fmInput'' (JObj []) init)) = [''fmInput'']
   \<and> log_of (snd (registerDirective accept_all ''fmInput'' (JObj []) init)) = [''fmInput'']"
  using log_append_after_host
    [of reject_all init "''fmInput''" "JObj []" "HostError ''rejected''"]
    log_append_after_host
    [of accept_all init "''fmInput''" "JObj []" "HostError ''rejected''"]
  by (simp add: reject_all_def accept_all_def) (simp add: init_def log_of_def allocated_def)


section \<open>The registration log\<close>

lemma registerComponent_log:
  "allocated st \<Longrightarrow>
     allocated (snd (registerComponent host n d st))
     \<and> (\<exists>ys. log_of (snd (registerComponent host n d st)) = log_of st @ ys)"
  by (simp add: registerComponent_def Let_def log_of_push_name allocated_push_name
        split: option.splits)

lemma registerDirective_log:
  "allocated st \<Longrightarrow>
     allocated (snd (registerDirective host n d st))
     \<and> (\<exists>ys. log_of (snd (registerDirective host n d st)) = log_of st @ ys)"
  by (simp add: registerDirective_def Let_def log_of_push_name allocated_push_name
        split: option.splits)

lemma getRegisteredComponents_log:
  "allocated st \<Longrightarrow>
     allocated (snd (getRegisteredComponents st))
     \<and> log_of (snd (getRegisteredComponents st)) = log_of st"
  by (simp add: getRegisteredComponents_def allocated_def log_of_def nth_append)

lemma step_log:
  assumes "allocated st"
  shows "allocated (snd (step host K res c st))
     \<and> (\<exists>ys. log_of (snd (step host K res c st)) = log_of st @ ys)"
proof (cases c)
  case OpGetRegisteredComponents
  then show ?thesis
    using getRegisteredComponents_log [OF assms] by (auto split: prod.splits)
next
  case (OpRegisterComponent n d)
  then show ?thesis using registerComponent_log [OF assms, of host n d] by simp
next
  case (OpRegisterDirective n f)
  then show ?thesis using registerDirective_log [OF assms, of host n f] by simp
next
  case (OpRegisterControl n d)
  then show ?thesis
    using registerComponent_log [OF assms, of host n "mergeDeep res (base_definition K) d"]
    by (simp add: registerControl_def)
qed (use assms in \<open>simp_all add: showErrorsOn_def getNextId_def Let_def
       allocated_def log_of_def del: step.simps(1)\<close>)

lemma run_log:
  "allocated st \<Longrightarrow>
     allocated (snd (run host K res cs st))
     \<and> (\<exists>ys. log_of (snd (run host K res cs st)) = log_of st @ ys)"
proof (induction cs arbitrary: st)
  case Nil
  then show ?case by simp
next
  case (Cons c cs)
  let ?st1 = "snd (step host K res c st)"
  from Cons.prems step_log [of st host K res c]
  obtain ys where a1: "allocated ?st1" and l1: "log_of ?st1 = log_of st @ ys"
    by blast
  from Cons.IH [OF a1]
  obtain zs where a2: "allocated (snd (run host K res cs ?st1))"
    and l2: "log_of (snd (run host K res cs ?st1)) = log_of ?st1 @ zs"
    by blast
  show ?case
    using a2 l1 l2 by (simp only: snd_run_Cons) simp
qed

text \<open>
  C5. After \<open>$registerComponent(n1, d)\<close> and then \<open>$registerDirective(n2, f)\<close>,
  both accepted by the host, the log is what it was followed by \<open>n1, n2\<close>, the names
  as passed (\<open>fmInput, fmFocus\<close> on a new registry); \<open>$getRegisteredComponents()\<close>
  returns a new array holding these names, not the registry's own; whatever the caller
  then writes into that array, the next \<open>$getRegisteredComponents()\<close> returns the
  same names again. Under any sequence of calls the log only grows at its end.
\<close>

theorem registration_log_copy:
  assumes "allocated st"
    and "host (compiled st) (Component (lowercase n1) d) = None"
    and "host (compiled st @ [Component (lowercase n1) d]) (Directive (lowercase n2) f) = None"
  shows "(let st2 = snd (registerDirective host n2 f (snd (registerComponent host n1 d st)));
              (a, st3) = getRegisteredComponents st2;
              (a', st5) = getRegisteredComponents (caller_writes a xs st3)
          in log_of st2 = log_of st @ [n1, n2]
           \<and> heap st3 ! a = log_of st @ [n1, n2]
           \<and> a \<noteq> registeredComponents st2
           \<and> a' \<noteq> a
           \<and> heap st5 ! a' = log_of st @ [n1, n2])
       \<and> (\<exists>ys. log_of (snd (run host' K res cs st)) = log_of st @ ys)"
proof -
  let ?st1 = "snd (registerComponent host n1 d st)"
  let ?st2 = "snd (registerDirective host n2 f ?st1)"
  have c1: "compiled ?st1 = compiled st @ [Component (lowercase n1) d]"
    by (simp add: registerComponent_def Let_def split: option.splits)
  have l1: "log_of ?st1 = log_of st @ [n1]" and a1: "allocated ?st1"
    using assms(1,2)
    by (simp_all add: registerComponent_def Let_def log_of_push_name allocated_push_name)
  have l2: "log_of ?st2 = log_of st @ [n1, n2]" and a2: "allocated ?st2"
    using a1 l1 assms(3) c1
    by (simp_all add: registerDirective_def Let_def log_of_push_name allocated_push_name)
  have copy: "(let (a, st3) = getRegisteredComponents ?st2;
                  (a', st5) = getRegisteredComponents (caller_writes a xs st3)
               in heap st3 ! a = log_of ?st2
                \<and> a \<noteq> registeredComponents ?st2
                \<and> a' \<noteq> a
                \<and> heap st5 ! a' = log_of ?st2)"
    using a2
    by (simp add: getRegisteredComponents_def caller_writes_def allocated_def log_of_def
          nth_append Let_def)
  from copy l2 run_log [OF assms(1), of host' K res cs]
  show ?thesis by (simp add: Let_def split: prod.splits)
qed

theorem registration_log_copy_witness:
  "allocated init
   \<and> accept_all (compiled init) (Component (lowercase ''fmInput'') (JObj [])) = None
   \<and> accept_all (compiled init @ [Component (lowercase ''fmInput'') (JObj [])])
        (Directive (lowercase ''fmFocus'') (JFun ''fn'' (Returns (JObj [])))) = None
   \<and> (let st2 = snd (registerDirective accept_all ''fmFocus'' (JFun ''fn'' (Returns (JObj [])))
                      (snd (registerComponent accept_all ''fmInput'' (JObj []) init)));
           (a, st3) = getRegisteredComponents st2;
           (a', st5) = getRegisteredComponents (caller_writes a [''gone''] st3)
       in log_of st2 = [''fmInput'', ''fmFocus'']
        \<and> heap st3 ! a = [''fmInput'', ''fmFocus'']
        \<and> heap (caller_writes a [''gone''] st3) ! a = [''gone'']
        \<and> heap st5 ! a' = [''fmInput'', ''fmFocus''])"
  using registration_log_copy
    [of init accept_all "''fmInput''" "JObj []" "''fmFocus''" "JFun ''fn'' (Returns (JObj []))" "[''gone'']"
        accept_all sample_constants keep_right "[]"]
  by (simp add: accept_all_def)
     (simp add: init_def allocated_def log_of_def Let_def getRegisteredComponents_def
        caller_writes_def registerComponent_def registerDirective_def push_name_def
        split: prod.splits)


section \<open>Reads\<close>

lemma step_read:
  assumes "allocated st" and "is_read c"
  shows "(case step host K res c st of (r, st1) \<Rightarrow>
            registry_of st1 = registry_of st
            \<and> registeredComponents st1 = registeredComponents st
            \<and> allocated st1
            \<and> (\<exists>ext. heap st1 = heap st @ ext)
            \<and> read_returns st st1 r)"
  using assms
  by (cases c)
     (simp_all add: registry_of_def getShowErrorsOnStr_def getRegisteredComponents_def
        log_of_def allocated_def nth_append)

lemma read_returns_extend:
  assumes "read_returns st st1 r" and "heap st2 = heap st1 @ ext"
  shows "read_returns st st2 r"
  using assms by (cases r) (simp_all add: nth_append)

lemma read_returns_cong:
  assumes "read_returns st1 st2 r" and "registry_of st1 = registry_of st"
  shows "read_returns st st2 r"
  using assms by (cases r) (simp_all add: registry_of_def)

lemma run_reads:
  assumes "allocated st" and "list_all is_read cs"
  shows "(case run host K res cs st of (rs, st') \<Rightarrow>
            registry_of st' = registry_of st
            \<and> registeredComponents st' = registeredComponents st
            \<and> allocated st'
            \<and> (\<exists>ext. heap st' = heap st @ ext)
            \<and> list_all (read_returns st st') rs)"
  using assms
proof (induction cs arbitrary: st)
  case Nil
  then show ?case by simp
next
  case (Cons c cs)
  obtain r st1 where s: "step host K res c st = (r, st1)" by (cases "step host K res c st")
  obtain rs st' where t: "run host K res cs st1 = (rs, st')"
    by (cases "run host K res cs st1")
  from Cons.prems have rd: "is_read c" and rds: "list_all is_read cs" by simp_all
  from step_read [OF Cons.prems(1) rd, of host K res] s
  obtain ext1 where g1: "registry_of st1 = registry_of st"
    and rc1: "registeredComponents st1 = registeredComponents st"
    and a1: "allocated st1" and h1: "heap st1 = heap st @ ext1"
    and r1: "read_returns st st1 r"
    by auto
  from Cons.IH [OF a1 rds] t
  obtain ext2 where g2: "registry_of st' = registry_of st1"
    and rc2: "registeredComponents st' = registeredComponents st1"
    and a2: "allocated st'" and h2: "heap st' = heap st1 @ ext2"
    and r2: "list_all (read_returns st1 st') rs"
    by auto
  have "read_returns st st' r"
    using r1 h2 by (rule read_returns_extend)
  moreover have "list_all (read_returns st st') rs"
    using r2 g1 by (auto simp: list_all_iff intro: read_returns_cong)
  ultimately show ?case
    using s t g1 g2 rc1 rc2 a2 h1 h2 by simp
qed

text \<open>
  C9. Under any sequence of the two reads \<open>$getShowErrorsOnStr()\<close> and
  \<open>$getRegisteredComponents()\<close>, with no write in between, every
  \<open>$getShowErrorsOnStr()\<close> returns the value the setting had at the start, every
  \<open>$getRegisteredComponents()\<close> returns an array holding the names the log had at
  the start, and at the end the registry's variables and the contents of its log are
  what they were.
\<close>

theorem reads_idempotent:
  assumes "allocated st" and "list_all is_read cs"
  shows "(case run host K res cs st of (rs, st') \<Rightarrow>
            registry_of st' = registry_of st
            \<and> list_all (read_returns st st') rs)"
  using run_reads [OF assms, of host K res] by (simp split: prod.splits)

theorem reads_idempotent_witness:
  "allocated (showErrorsOn (JStr ''touched'') init)
   \<and> list_all is_read
        [OpGetRegisteredComponents, OpGetShowErrorsOnStr, OpGetRegisteredComponents,
         OpGetShowErrorsOnStr]
   \<and> (case run accept_all sample_constants keep_right
              [OpGetRegisteredComponents, OpGetShowErrorsOnStr, OpGetRegisteredComponents,
               OpGetShowErrorsOnStr]
              (showErrorsOn (JStr ''touched'') init) of
         (rs, st') \<Rightarrow>
            rs = [Array 1, Val (JStr ''touched''), Array 2, Val (JStr ''touched'')]
            \<and> heap st' ! 1 = heap st' ! 2
            \<and> registry_of st' = registry_of (showErrorsOn (JStr ''touched'') init)
            \<and> list_all (read_returns (showErrorsOn (JStr ''touched'') init) st') rs)"
  using reads_idempotent
    [of "showErrorsOn (JStr ''touched'') init"
        "[OpGetRegisteredComponents, OpGetShowErrorsOnStr, OpGetRegisteredComponents,
          OpGetShowErrorsOnStr]" accept_all sample_constants keep_right]
  by (simp add: allocated_def showErrorsOn_def init_def getRegisteredComponents_def
        getShowErrorsOnStr_def split: prod.splits)


section \<open>Identifiers\<close>

lemma step_other_counter:
  assumes "\<not> is_getNextId c"
  shows "counter (snd (step host K res c st)) = counter st
       \<and> ids (fst (step host K res c st) # rs) = ids rs"
proof (cases c)
  case (OpRegisterComponent n d)
  then show ?thesis
    by (cases "registerComponent host n d st" rule: outcome.cases)
       (use registerComponent_fields(3) [of host n d st] in simp_all)
next
  case (OpRegisterDirective n f)
  then show ?thesis
    by (cases "registerDirective host n f st" rule: outcome.cases)
       (use registerDirective_fields(3) [of host n f st] in simp_all)
next
  case (OpRegisterControl n d)
  then show ?thesis
    by (cases "registerComponent host n (mergeDeep res (base_definition K) d) st"
          rule: outcome.cases)
       (use registerComponent_fields(3)
              [of host n "mergeDeep res (base_definition K) d" st]
         in \<open>simp_all add: registerControl_def\<close>)
qed (use assms in \<open>simp_all add: showErrorsOn_def getRegisteredComponents_def
       del: step.simps(1)\<close>)

lemma step_getNextId:
  "counter st < 2 ^ 53 \<Longrightarrow>
     step host K res OpGetNextId st = (NextId (counter st + 1), st\<lparr>counter := counter st + 1\<rparr>)"
  by (simp add: getNextId_def js_incr_def Let_def)

lemma step_getNextId_saturated:
  "counter st = 2 ^ 53 \<Longrightarrow> step host K res OpGetNextId st = (NextId (2 ^ 53), st)"
  by (simp add: getNextId_def js_incr_def)

lemma fst_run_Cons:
  "fst (run host K res (c # cs) st)
     = fst (step host K res c st) # fst (run host K res cs (snd (step host K res c st)))"
  by (simp split: prod.splits)

lemma run_ids:
  assumes "counter st + int (length (filter is_getNextId cs)) \<le> 2 ^ 53"
  shows "ids (fst (run host K res cs st))
           = [counter st + 1 .. counter st + int (length (filter is_getNextId cs))]
       \<and> counter (snd (run host K res cs st))
           = counter st + int (length (filter is_getNextId cs))"
  using assms
proof (induction cs arbitrary: st)
  case Nil
  then show ?case by simp
next
  case (Cons c cs)
  show ?case
  proof (cases "is_getNextId c")
    case True
    then have c: "c = OpGetNextId" by (cases c) simp_all
    let ?st1 = "st\<lparr>counter := counter st + 1\<rparr>"
    let ?n = "length (filter is_getNextId cs)"
    from Cons.prems c have lt: "counter st < 2 ^ 53" by simp
    have s: "step host K res c st = (NextId (counter st + 1), ?st1)"
      unfolding c using lt by (rule step_getNextId)
    have "counter ?st1 + int ?n \<le> 2 ^ 53" using Cons.prems c by simp
    from Cons.IH [OF this]
    have ih: "ids (fst (run host K res cs ?st1)) = [counter st + 1 + 1 .. counter st + 1 + int ?n]"
      and ihc: "counter (snd (run host K res cs ?st1)) = counter st + 1 + int ?n"
      by simp_all
    have "[counter st + 1 .. counter st + int (Suc ?n)]
            = (counter st + 1) # [counter st + 1 + 1 .. counter st + 1 + int ?n]"
      by (subst upto_rec1) (simp_all add: algebra_simps)
    then show ?thesis
      using ih ihc by (simp only: fst_run_Cons snd_run_Cons s) (simp add: c)
  next
    case False
    from step_other_counter [OF False, of host K res st]
    have k: "counter (snd (step host K res c st)) = counter st"
      and i: "\<And>rs. ids (fst (step host K res c st) # rs) = ids rs"
      by simp_all
    from Cons.prems False
    have "counter (snd (step host K res c st)) + int (length (filter is_getNextId cs)) \<le> 2 ^ 53"
      by (simp add: k)
    from Cons.IH [OF this] show ?thesis
      using False by (simp only: fst_run_Cons snd_run_Cons i k) simp
  qed
qed

text \<open>
  C1, amended. In any sequence of calls on a new registry that holds at most
  \<open>2^53 + 1\<close> calls of \<open>$getNextId\<close>, these calls return \<open>0, 1, 2, ...\<close> in
  order, strictly increasing and without repeats, whatever the other calls in between
  are and whether or not they throw.
\<close>

theorem getNextId_sequence:
  assumes "length (filter is_getNextId cs) \<le> 2 ^ 53 + 1"
  shows "ids (fst (run host K res cs init)) = [0 .. int (length (filter is_getNextId cs)) - 1]
       \<and> distinct (ids (fst (run host K res cs init)))
       \<and> sorted_wrt (<) (ids (fst (run host K res cs init)))"
proof -
  have "counter init + int (length (filter is_getNextId cs)) \<le> 2 ^ 53"
    using assms by (simp add: init_def)
  from run_ids [OF this, of host K res]
  have "ids (fst (run host K res cs init)) = [0 .. int (length (filter is_getNextId cs)) - 1]"
    by (simp add: init_def)
  then show ?thesis by simp
qed


theorem getNextId_sequence_witness:
  "length (filter is_getNextId
      [OpGetNextId, OpSetPrefix (JStr ''foo''), OpGetNextId,
       OpRegisterComponent ''fmInput'' (JObj []), OpShowErrorsOn (JStr ''touched''),
       OpRegisterDirective ''fmFocus'' (JFun ''fn'' (Returns (JObj []))), OpGetNextId]) \<le> 2 ^ 53 + 1
   \<and> ids (fst (run reject_all sample_constants keep_right
        [OpGetNextId, OpSetPrefix (JStr ''foo''), OpGetNextId,
         OpRegisterComponent ''fmInput'' (JObj []), OpShowErrorsOn (JStr ''touched''),
         OpRegisterDirective ''fmFocus'' (JFun ''fn'' (Returns (JObj []))), OpGetNextId] init)) = [0, 1, 2]"
  using getNextId_sequence
    [of "[OpGetNextId, OpSetPrefix (JStr ''foo''), OpGetNextId,
          OpRegisterComponent ''fmInput'' (JObj []), OpShowErrorsOn (JStr ''touched''),
          OpRegisterDirective ''fmFocus'' (JFun ''fn'' (Returns (JObj []))), OpGetNextId]"
        reject_all sample_constants keep_right]
  by (simp add: upto_rec1)

lemma run_snoc:
  "run host K res (cs @ [c]) st =
     (case run host K res cs st of (rs, st') \<Rightarrow>
        (case step host K res c st' of (r, st'') \<Rightarrow> (rs @ [r], st'')))"
  by (induction cs arbitrary: st) (simp_all split: prod.splits)

lemma ids_append: "ids (rs @ rs') = ids rs @ ids rs'"
  by (induction rs rule: ids.induct) simp_all

lemma saturated_ids:
  assumes "n = 2 ^ 53 + 1"
  shows "ids (fst (run host K res (replicate (Suc n) OpGetNextId) init)) = [0 .. 2 ^ 53] @ [2 ^ 53]"
proof -
  let ?cs = "replicate n OpGetNextId"
  have len: "length (filter is_getNextId ?cs) = n" by simp
  have "counter init + int (length (filter is_getNextId ?cs)) \<le> 2 ^ 53"
    unfolding len using assms by (simp add: init_def)
  from run_ids [OF this, of host K res]
  have i: "ids (fst (run host K res ?cs init)) = [0 .. 2 ^ 53]"
    and c: "counter (snd (run host K res ?cs init)) = 2 ^ 53"
    unfolding len using assms by (simp_all add: init_def)
  obtain rs st' where r: "run host K res ?cs init = (rs, st')"
    by (cases "run host K res ?cs init")
  from i c r have i': "ids rs = [0 .. 2 ^ 53]" and c': "counter st' = 2 ^ 53" by simp_all
  have "replicate (Suc n) OpGetNextId = ?cs @ [OpGetNextId]"
    by (simp add: replicate_append_same)
  then show ?thesis
    by (simp only: run_snoc r step_getNextId_saturated [OF c'] prod.case fst_conv
          ids_append i') simp
qed

text \<open>
  C1, as stated, for every \<open>N\<close>: it fails at \<open>N = 2^53 + 2\<close>. The counter is a
  Number; once it holds \<open>2^53\<close>, \<open>++counter\<close> returns \<open>2^53\<close> again, so the last
  two of \<open>2^53 + 2\<close> consecutive calls return the same identifier.
\<close>

theorem getNextId_sequence_counterexample:
  "ids (fst (run accept_all sample_constants keep_right
               (replicate (Suc (2 ^ 53 + 1)) OpGetNextId) init)) \<noteq> [0 .. 2 ^ 53 + 1]
   \<and> \<not> distinct (ids (fst (run accept_all sample_constants keep_right
               (replicate (Suc (2 ^ 53 + 1)) OpGetNextId) init)))"
proof -
  have e: "ids (fst (run accept_all sample_constants keep_right
               (replicate (Suc (2 ^ 53 + 1)) OpGetNextId) init)) = [0 .. 2 ^ 53] @ [2 ^ 53]"
    by (rule saturated_ids [OF refl])
  have "[0 .. 2 ^ 53 + 1] = [0 .. 2 ^ 53] @ [2 ^ 53 + (1::int)]"
    by (subst upto_rec2) simp_all
  then show ?thesis unfolding e by simp
qed


section \<open>Controls\<close>

lemma base_definition_eq:
  assumes "COMPONENT_CONFIGURATION K \<noteq> ''$ngDisabled''"
  shows "base_definition K = JObj
     [(''bindings'', JObj [(COMPONENT_CONFIGURATION K, JStr ''<config''),
                          (''$ngDisabled'', JStr ''<ngDisabled'')]),
      (''require'', JObj [(FORM_CONTROLLER K, JStr (''^^'' @ FORM_COMPONENT_NAME K))])]"
  using assms by (simp add: base_definition_def obj_literal_def)

lemma map_of_None_keys: "(map_of kvs k = None) = (k \<notin> set (map fst kvs))"
  by (simp add: map_of_eq_None_iff)

lemma mergeDeep_disjoint:
  assumes "set (map fst l) \<inter> set (map fst r) = {}"
  shows "mergeDeep res (JObj l) (JObj r) = JObj (l @ r)"
proof -
  have "map (\<lambda>(k, v). (k, case map_of r k of None \<Rightarrow> v | Some w \<Rightarrow> mergeDeep res v w)) l = l"
  proof (rule map_idI)
    fix x assume "x \<in> set l"
    then have "fst x \<in> set (map fst l)" by simp
    with assms have "fst x \<notin> set (map fst r)" by blast
    then have "map_of r (fst x) = None" by (simp add: map_of_None_keys)
    then show "(case x of (k, v) \<Rightarrow>
                  (k, case map_of r k of None \<Rightarrow> v | Some w \<Rightarrow> mergeDeep res v w)) = x"
      by (cases x) simp
  qed
  moreover have "filter (\<lambda>(k, w). map_of l k = None) r = r"
  proof (rule filter_True)
    show "\<forall>x \<in> set r. case x of (k, w) \<Rightarrow> map_of l k = None"
    proof
      fix x assume "x \<in> set r"
      then have "fst x \<in> set (map fst r)" by simp
      with assms have "fst x \<notin> set (map fst l)" by blast
      then show "case x of (k, w) \<Rightarrow> map_of l k = None"
        by (cases x) (simp add: map_of_None_keys)
    qed
  qed
  ultimately show ?thesis by simp
qed

lemma contains_refl: "wf_val v \<Longrightarrow> contains v v"
proof (induction v rule: wf_val.induct)
  case (1 kvs)
  from "1.prems" have d: "distinct (map fst kvs)"
    and w: "\<And>k v. (k, v) \<in> set kvs \<Longrightarrow> wf_val v"
    by (auto simp: list_all_iff)
  have "\<And>k v. (k, v) \<in> set kvs \<Longrightarrow> map_of kvs k = Some v \<and> contains v v"
    using d w "1.IH" by (auto simp: list_all_iff)
  then show ?case by (auto simp: list_all_iff)
qed simp_all

lemma contains_append:
  assumes "distinct (map fst bs)" and "set (map fst B) \<inter> set (map fst bs) = {}"
    and "list_all (\<lambda>(k, v). wf_val v) bs"
  shows "contains (JObj (B @ bs)) (JObj bs)"
proof -
  have "map_of (B @ bs) k = Some v \<and> contains v v" if "(k, v) \<in> set bs" for k v
  proof -
    from that have "k \<in> set (map fst bs)" by force
    with assms(2) have "k \<notin> set (map fst B)" by blast
    then have "map_of B k = None" by (simp add: map_of_None_keys)
    moreover from that assms(1) have "map_of bs k = Some v" by simp
    moreover from that assms(3) have "contains v v"
      by (auto simp: list_all_iff intro: contains_refl)
    ultimately show ?thesis by (simp add: map_add_Some_iff)
  qed
  then show ?thesis by (auto simp: list_all_iff)
qed

lemma map_of_is_object:
  assumes "map_of kvs k = Some v" and "is_object v"
  obtains bs where "v = JObj bs" and "(k, JObj bs) \<in> set kvs"
  using assms by (cases v) (auto dest: map_of_SomeD)

lemma merge_into_base_entry:
  assumes "wf_val (JObj kvs)"
    and "key \<in> set (map fst kvs) \<longrightarrow>
           is_object (get_prop (JObj kvs) key)
           \<and> set (map fst B) \<inter> set (own_keys (get_prop (JObj kvs) key)) = {}"
  obtains bs where
    "(case map_of kvs key of None \<Rightarrow> JObj B | Some w \<Rightarrow> mergeDeep res (JObj B) w)
       = JObj (B @ bs)"
    and "own_keys (get_prop (JObj kvs) key) = map fst bs"
    and "\<And>v. (key, v) \<in> set kvs \<Longrightarrow> v = JObj bs"
    and "contains (JObj (B @ bs)) (JObj bs)"
proof (cases "map_of kvs key")
  case None
  then have "\<And>v. (key, v) \<notin> set kvs"
    by (metis map_of_eq_None_iff fst_conv image_eqI)
  with None that [of "[]"] show thesis by simp
next
  case (Some w)
  from assms(1) have dist: "distinct (map fst kvs)"
    and wfs: "list_all (\<lambda>(k, v). wf_val v) kvs" by simp_all
  from Some have mem: "(key, w) \<in> set kvs" by (rule map_of_SomeD)
  then have "key \<in> set (map fst kvs)" by force
  with assms(2) Some have obj: "is_object w"
    and disj: "set (map fst B) \<inter> set (own_keys w) = {}" by simp_all
  from obj obtain bs where w: "w = JObj bs" by (cases w) simp_all
  from mem wfs have "wf_val w" by (auto simp: list_all_iff)
  with w have dbs: "distinct (map fst bs)" and wbs: "list_all (\<lambda>(k, v). wf_val v) bs"
    by simp_all
  from disj w have disj': "set (map fst B) \<inter> set (map fst bs) = {}" by simp
  have 1: "(case map_of kvs key of None \<Rightarrow> JObj B | Some w \<Rightarrow> mergeDeep res (JObj B) w)
             = JObj (B @ bs)"
    using Some w mergeDeep_disjoint [OF disj', of res] by simp
  have 2: "own_keys (get_prop (JObj kvs) key) = map fst bs"
    using Some w by simp
  have 3: "v = JObj bs" if "(key, v) \<in> set kvs" for v
  proof -
    from that dist have "map_of kvs key = Some v" by simp
    with Some w show ?thesis by simp
  qed
  have 4: "contains (JObj (B @ bs)) (JObj bs)"
    using dbs disj' wbs by (rule contains_append)
  from 1 2 3 4 show thesis by (rule that)
qed

lemma map_of_filter_distinct:
  assumes "distinct (map fst kvs)" and "(k, v) \<in> set kvs" and "P (k, v)"
  shows "map_of (filter P kvs) k = Some v"
proof (rule map_of_is_SomeI)
  show "distinct (map fst (filter P kvs))" using assms(1) by (rule distinct_map_filter)
  show "(k, v) \<in> set (filter P kvs)" using assms(2,3) by simp
qed

lemma lowercase_datePicker: "lowercase ''datePicker'' = ''datepicker''"
  by code_simp


text \<open>
  C3, as stated, for every caller definition: it fails for a definition that redefines
  a base binding, here \<open>bindings: {$ngDisabled: '@'}\<close>. If the base wins the
  conflict, the registered definition does not contain what the caller supplied; if the
  caller wins, the base binding \<open>$ngDisabled: '<ngDisabled'\<close> is not in it.
\<close>

theorem registerControl_base_merge_counterexample:
  "\<not> contains (mergeDeep keep_left (base_definition sample_constants) overriding) overriding
   \<and> get_prop (get_prop (mergeDeep keep_right (base_definition sample_constants) overriding)
                 ''bindings'') ''$ngDisabled'' \<noteq> JStr ''<ngDisabled''
   \<and> compiled (snd (registerControl accept_all sample_constants keep_right ''datePicker''
                       overriding init))
       = [Component ''datepicker'' (JObj
            [(''bindings'', JObj [(''$configuration'', JStr ''<config''),
                                 (''$ngDisabled'', JStr ''@'')]),
             (''require'', JObj [(''$formController'', JStr ''^^fm'')])])]
   \<and> compiled (snd (registerControl accept_all sample_constants keep_left ''datePicker''
                       overriding init))
       = [Component ''datepicker'' (JObj
            [(''bindings'', JObj [(''$configuration'', JStr ''<config''),
                                 (''$ngDisabled'', JStr ''<ngDisabled'')]),
             (''require'', JObj [(''$formController'', JStr ''^^fm'')])])]"
  by (simp add: sample_constants_def overriding_def keep_left_def keep_right_def
        base_definition_def obj_literal_def registerControl_def registerComponent_def
        accept_all_def init_def lowercase_datePicker Let_def)

text \<open>
  C3, amended. When the caller's definition is an object that leaves the base keys
  alone (its \<open>bindings\<close> and \<open>require\<close>, if any, are objects without the two base
  binding keys and the base require key), \<open>registerControl(name, definition)\<close> hands
  the host the deep merge of the base and the caller's definition, under the lowercased
  name; that definition contains everything the caller supplied, the two base bindings
  \<open>'<config'\<close> and \<open>$ngDisabled: '<ngDisabled'\<close> and the one base requirement
  \<open>'^^' + FORM_COMPONENT_NAME\<close>, and its bindings and requirements are the base ones
  followed by the caller's. This holds whichever side the merge prefers on a conflict.
\<close>

theorem registerControl_base_merge:
  assumes cc: "COMPONENT_CONFIGURATION K \<noteq> ''$ngDisabled''"
    and wf: "wf_val d"
    and lb: "leaves_base_keys K d"
  shows "(let r = mergeDeep res (base_definition K) d in
            compiled (snd (registerControl host K res name d st))
              = compiled st @ [Component (lowercase name) r]
          \<and> contains r d
          \<and> get_prop (get_prop r ''bindings'') (COMPONENT_CONFIGURATION K) = JStr ''<config''
          \<and> get_prop (get_prop r ''bindings'') ''$ngDisabled'' = JStr ''<ngDisabled''
          \<and> get_prop (get_prop r ''require'') (FORM_CONTROLLER K)
              = JStr (''^^'' @ FORM_COMPONENT_NAME K)
          \<and> own_keys (get_prop r ''bindings'')
              = [COMPONENT_CONFIGURATION K, ''$ngDisabled'']
                @ own_keys (get_prop d ''bindings'')
          \<and> own_keys (get_prop r ''require'')
              = [FORM_CONTROLLER K] @ own_keys (get_prop d ''require''))"
proof -
  define B where "B = [(COMPONENT_CONFIGURATION K, JStr ''<config''),
                       (''$ngDisabled'', JStr ''<ngDisabled'')]"
  define R where "R = [(FORM_CONTROLLER K, JStr (''^^'' @ FORM_COMPONENT_NAME K))]"
  from lb obtain kvs where d: "d = JObj kvs"
    by (cases d) (simp_all add: leaves_base_keys_def)
  from wf d have wfk: "wf_val (JObj kvs)" by simp
  then have dist: "distinct (map fst kvs)"
    and wfs: "list_all (\<lambda>(k, v). wf_val v) kvs" by simp_all
  have hb: "''bindings'' \<in> set (map fst kvs) \<longrightarrow>
              is_object (get_prop (JObj kvs) ''bindings'')
              \<and> set (map fst B) \<inter> set (own_keys (get_prop (JObj kvs) ''bindings'')) = {}"
    using lb unfolding d leaves_base_keys_def B_def by simp
  have hr: "''require'' \<in> set (map fst kvs) \<longrightarrow>
              is_object (get_prop (JObj kvs) ''require'')
              \<and> set (map fst R) \<inter> set (own_keys (get_prop (JObj kvs) ''require'')) = {}"
    using lb unfolding d leaves_base_keys_def R_def by simp
  from merge_into_base_entry [OF wfk hb, of res]
  obtain bs where
    xb: "(case map_of kvs ''bindings'' of None \<Rightarrow> JObj B | Some w \<Rightarrow> mergeDeep res (JObj B) w)
           = JObj (B @ bs)"
    and kb: "own_keys (get_prop (JObj kvs) ''bindings'') = map fst bs"
    and vb: "\<And>v. (''bindings'', v) \<in> set kvs \<Longrightarrow> v = JObj bs"
    and cb: "contains (JObj (B @ bs)) (JObj bs)"
    by blast
  from merge_into_base_entry [OF wfk hr, of res]
  obtain rs where
    xr: "(case map_of kvs ''require'' of None \<Rightarrow> JObj R | Some w \<Rightarrow> mergeDeep res (JObj R) w)
           = JObj (R @ rs)"
    and kr: "own_keys (get_prop (JObj kvs) ''require'') = map fst rs"
    and vr: "\<And>v. (''require'', v) \<in> set kvs \<Longrightarrow> v = JObj rs"
    and cr: "contains (JObj (R @ rs)) (JObj rs)"
    by blast
  define rest where
    "rest = filter (\<lambda>(k, w). k \<noteq> ''bindings'' \<and> k \<noteq> ''require'') kvs"
  define r where "r = mergeDeep res (base_definition K) d"
  have base: "base_definition K = JObj [(''bindings'', JObj B), (''require'', JObj R)]"
    unfolding B_def R_def using cc by (rule base_definition_eq)
  have flt: "filter (\<lambda>(k, w). map_of [(''bindings'', JObj B), (''require'', JObj R)] k = None) kvs
               = rest"
    unfolding rest_def by (rule filter_cong) auto
  have r: "r = JObj ((''bindings'', JObj (B @ bs)) # (''require'', JObj (R @ rs)) # rest)"
    unfolding r_def base d using xb xr flt by simp
  have fwd: "compiled (snd (registerControl host K res name d st))
               = compiled st @ [Component (lowercase name) r]"
    unfolding r_def registerControl_def
    by (simp add: registerComponent_def Let_def split: option.splits)
  have "case map_of ((''bindings'', JObj (B @ bs)) # (''require'', JObj (R @ rs)) # rest) k of
          None \<Rightarrow> False | Some w \<Rightarrow> contains w v"
    if kv: "(k, v) \<in> set kvs" for k v
  proof -
    consider "k = ''bindings''" | "k = ''require''" | "k \<noteq> ''bindings''" "k \<noteq> ''require''"
      by blast
    then show ?thesis
    proof cases
      case 1
      with kv vb have "v = JObj bs" by blast
      with 1 cb show ?thesis by simp
    next
      case 2
      with kv vr have "v = JObj rs" by blast
      with 2 cr show ?thesis by simp
    next
      case 3
      from kv wfs have "wf_val v" by (auto simp: list_all_iff)
      then have "contains v v" by (rule contains_refl)
      moreover have "map_of rest k = Some v"
        unfolding rest_def using dist kv 3 by (intro map_of_filter_distinct) simp_all
      ultimately show ?thesis using 3 by simp
    qed
  qed
  then have cont: "contains r d"
    unfolding r d by (simp add: list_all_iff split_beta)
  have p1: "get_prop (get_prop r ''bindings'') (COMPONENT_CONFIGURATION K) = JStr ''<config''"
    and p2: "get_prop (get_prop r ''bindings'') ''$ngDisabled'' = JStr ''<ngDisabled''"
    and p3: "get_prop (get_prop r ''require'') (FORM_CONTROLLER K)
               = JStr (''^^'' @ FORM_COMPONENT_NAME K)"
    unfolding r using cc by (simp_all add: B_def R_def)
  have k1: "own_keys (get_prop r ''bindings'')
              = [COMPONENT_CONFIGURATION K, ''$ngDisabled''] @ own_keys (get_prop d ''bindings'')"
    and k2: "own_keys (get_prop r ''require'')
              = [FORM_CONTROLLER K] @ own_keys (get_prop d ''require'')"
    unfolding r d kb kr by (simp_all add: B_def R_def)
  from fwd cont p1 p2 p3 k1 k2 show ?thesis
    unfolding Let_def r_def by blast
qed

theorem registerControl_base_merge_witness:
  "COMPONENT_CONFIGURATION sample_constants \<noteq> ''$ngDisabled''
   \<and> wf_val date_picker
   \<and> leaves_base_keys sample_constants date_picker
   \<and> compiled (snd (registerControl accept_all sample_constants keep_left ''datePicker''
                       date_picker init))
       = [Component ''datepicker'' (JObj
            [(''bindings'', JObj [(''$configuration'', JStr ''<config''),
                                 (''$ngDisabled'', JStr ''<ngDisabled''),
                                 (''min'', JStr ''<'')]),
             (''require'', JObj [(''$formController'', JStr ''^^fm'')]),
             (''controllerAs'', JStr ''DatePicker''),
             (''controller'', JFun ''class DatePicker extends FormationControl {}'' (Throws TypeError))])]
   \<and> contains (mergeDeep keep_left (base_definition sample_constants) date_picker) date_picker
   \<and> own_keys (get_prop (mergeDeep keep_left (base_definition sample_constants) date_picker)
                  ''bindings'')
       = [''$configuration'', ''$ngDisabled'', ''min'']"
  using registerControl_base_merge
    [of sample_constants date_picker keep_left accept_all "''datePicker''" init]
  by (simp add: sample_constants_def date_picker_def leaves_base_keys_def Let_def
        base_definition_def obj_literal_def registerControl_def registerComponent_def
        accept_all_def init_def lowercase_datePicker)


end
